theory Spec2Isabelle
  imports Main "HOL-Library.AList" "HOL-Library.Sublist"
begin

section \<open>The configuration file\<close>

text \<open>
  The script keeps its state in \<^verbatim>\<open>inputs.conf\<close>, read and written through Python's
  \<^verbatim>\<open>configparser\<close>. A parser object is an ordered dictionary of sections, each an ordered
  dictionary of options, so it is an association list of association lists here. The
  parser is taken as it is used by the script: no \<^verbatim>\<open>DEFAULT\<close> section, no interpolation
  characters in the values, and writing a parser to the file and reading it back returns
  the same parser.
\<close>

type_synonym options = "(string \<times> string) list"
type_synonym config = "(string \<times> options) list"

text \<open>\<^verbatim>\<open>config.sections()\<close>, \<^verbatim>\<open>config.has_section\<close>, \<^verbatim>\<open>config.has_option\<close>.\<close>

definition sections :: "config \<Rightarrow> string list" where
  "sections cfg = map fst cfg"

definition has_section :: "config \<Rightarrow> string \<Rightarrow> bool" where
  "has_section cfg s = (map_of cfg s \<noteq> None)"

text \<open>
  \<^verbatim>\<open>config.get(section, option)\<close>; \<open>None\<close> stands for the \<^verbatim>\<open>NoOptionError\<close> (or
  \<^verbatim>\<open>NoSectionError\<close>) the parser raises.
\<close>

definition cfg_get :: "config \<Rightarrow> string \<Rightarrow> string \<Rightarrow> string option" where
  "cfg_get cfg s k = (case map_of cfg s of None \<Rightarrow> None | Some opts \<Rightarrow> map_of opts k)"

definition has_option :: "config \<Rightarrow> string \<Rightarrow> string \<Rightarrow> bool" where
  "has_option cfg s k = (cfg_get cfg s k \<noteq> None)"

text \<open>
  \<^verbatim>\<open>config.set(section, option, value)\<close>: the option is overwritten where it stands, or
  appended to the section. Both call sites of the script pass a section that the parser
  has just been seen to hold, so the \<^verbatim>\<open>NoSectionError\<close> of a missing section is not a
  branch: a missing section leaves the parser as it is.
\<close>

definition cfg_set :: "config \<Rightarrow> string \<Rightarrow> string \<Rightarrow> string \<Rightarrow> config" where
  "cfg_set cfg s k v = AList.map_entry s (AList.update k v) cfg"

definition weather_section :: string where
  "weather_section = ''rest://WeatherTest3''"

definition disabled_interval :: string where
  "disabled_interval = ''999999''"

definition never_schedule :: string where
  "never_schedule = ''0 0 5 31 2 ?''"

section \<open>Property-id extraction\<close>

text \<open>
  \<^verbatim>\<open>re.search(r'/property/(\d+)/metrics', endpoint_value)\<close>. At one position the pattern
  matches when the literal \<^verbatim>\<open>/property/\<close> is followed by a non-empty run of digits and then
  by \<^verbatim>\<open>/metrics\<close>; the greedy \<^verbatim>\<open>\d+\<close> takes the whole run, and giving digits back never
  helps since the next character has to be \<^verbatim>\<open>/\<close>. \<^verbatim>\<open>re.search\<close> tries the positions from
  left to right and group 1 is the run of digits of the first match. The characters are
  the 8-bit ones of HOL, among which \<^verbatim>\<open>\d\<close> matches the ten ASCII digits only.
\<close>

definition is_digit :: "char \<Rightarrow> bool" where
  "is_digit c = (c \<in> set ''0123456789'')"

fun strip_prefix :: "string \<Rightarrow> string \<Rightarrow> string option" where
  "strip_prefix [] s = Some s"
| "strip_prefix (p # ps) [] = None"
| "strip_prefix (p # ps) (c # cs) = (if p = c then strip_prefix ps cs else None)"

definition match_here :: "string \<Rightarrow> string option" where
  "match_here s =
     (case strip_prefix ''/property/'' s of
        None \<Rightarrow> None
      | Some rest \<Rightarrow>
          (if takeWhile is_digit rest \<noteq> [] \<and>
              strip_prefix ''/metrics'' (dropWhile is_digit rest) \<noteq> None
           then Some (takeWhile is_digit rest)
           else None))"

fun re_search :: "string \<Rightarrow> string option" where
  "re_search [] = match_here []"
| "re_search (c # cs) =
     (case match_here (c # cs) of Some d \<Rightarrow> Some d | None \<Rightarrow> re_search cs)"

definition extract_property_id :: "string \<Rightarrow> string option" where
  "extract_property_id endpoint_value = re_search endpoint_value"

text \<open>
  The pattern in the words of the specification: the URL contains
  \<^verbatim>\<open>/property/{digits}/metrics\<close> somewhere.
\<close>

definition contains_pattern :: "string \<Rightarrow> bool" where
  "contains_pattern url =
     (\<exists>pre ds post. url = pre @ ''/property/'' @ ds @ ''/metrics'' @ post \<and>
        ds \<noteq> [] \<and> (\<forall>c \<in> set ds. is_digit c))"

section \<open>The outside world\<close>

text \<open>
  One HTTP round trip, as \<^verbatim>\<open>get_score\<close> sees it: \<^verbatim>\<open>requests.get\<close> or
  \<^verbatim>\<open>raise_for_status\<close> raises a \<^verbatim>\<open>RequestException\<close>, or the parsing of the body raises
  another exception, or the stripped text of the body is there (empty when the month has
  no score).
\<close>

datatype fetch_result = RequestException | OtherException | ScoreText string

text \<open>
  The server is an oracle: the answer to the \<open>n\<close>-th call of the run, given the URL and the
  basic-auth pair. Opening the file for writing is an oracle too: whether the \<open>n\<close>-th
  attempt of the run succeeds. A failed attempt is an \<^verbatim>\<open>OSError\<close> of \<^verbatim>\<open>open\<close>, which leaves
  the file as it was.
\<close>

type_synonym fetch_oracle = "nat \<Rightarrow> string \<Rightarrow> string \<times> string \<Rightarrow> fetch_result"
type_synonym write_oracle = "nat \<Rightarrow> bool"

record world =
  disk :: config
  http_calls :: nat
  file_writes :: nat

text \<open>\<^verbatim>\<open>with open(config_file, 'w') as configfile: config.write(configfile)\<close>\<close>

definition write_config :: "write_oracle \<Rightarrow> config \<Rightarrow> world \<Rightarrow> bool \<times> world" where
  "write_config W cfg w =
     (if W (file_writes w)
      then (True, w\<lparr>disk := cfg, file_writes := file_writes w + 1\<rparr>)
      else (False, w\<lparr>file_writes := file_writes w + 1\<rparr>))"

text \<open>\<^verbatim>\<open>requests.get(url, auth=auth, headers=headers)\<close> and the parsing of the answer.\<close>

definition http_get :: "fetch_oracle \<Rightarrow> string \<Rightarrow> string \<times> string \<Rightarrow> world \<Rightarrow> fetch_result \<times> world" where
  "http_get F url auth w = (F (http_calls w) url auth, w\<lparr>http_calls := http_calls w + 1\<rparr>)"

section \<open>Formatting\<close>

text \<open>Python's \<^verbatim>\<open>str\<close> of an integer, as the f-strings of the URL use it.\<close>

definition digit_char :: "nat \<Rightarrow> char" where
  "digit_char n = ''0123456789'' ! n"

fun str_nat :: "nat \<Rightarrow> string" where
  "str_nat n = (if n < 10 then [digit_char n] else str_nat (n div 10) @ [digit_char (n mod 10)])"

declare str_nat.simps [simp del]

definition str_int :: "int \<Rightarrow> string" where
  "str_int i = (if i < 0 then CHR ''-'' # str_nat (nat (- i)) else str_nat (nat i))"

definition metrics_url :: "string \<Rightarrow> int \<Rightarrow> int \<Rightarrow> string" where
  "metrics_url property_id year month =
     ''https://portfoliomanager.energystar.gov/ws/property/'' @ property_id @
     ''/metrics?year='' @ str_int year @ ''&month='' @ str_int month"

section \<open>Credentials\<close>

definition get_credentials_from_config :: "config \<Rightarrow> string \<Rightarrow> (string \<times> string) option" where
  "get_credentials_from_config cfg section_name =
     (if \<not> has_section cfg section_name then None
      else (case cfg_get cfg section_name ''auth_user'' of
              None \<Rightarrow> None
            | Some auth_user \<Rightarrow>
                (case cfg_get cfg section_name ''auth_password'' of
                   None \<Rightarrow> None
                 | Some auth_password \<Rightarrow> Some (auth_user, auth_password))))"

section \<open>The backward search\<close>

text \<open>
  \<^verbatim>\<open>get_score\<close> returns \<^verbatim>\<open>(success, year, month)\<close>; the parser object it mutates and the
  world come back with it.
\<close>

type_synonym score_result = "bool \<times> int option \<times> int option"

definition exhausted :: score_result where
  "exhausted = (False, None, None)"

text \<open>
  The step to the previous month, written three times in the source (no score, HTTP
  error, other error): \<^verbatim>\<open>(year, month, years_checked)\<close> after it.
\<close>

definition previous_month :: "int \<times> int \<times> int \<Rightarrow> int \<times> int \<times> int" where
  "previous_month st =
     (case st of (year, month, years_checked) \<Rightarrow>
        if month = 1 then (year - 1, 12, years_checked + 1)
        else (year, month - 1, years_checked))"

text \<open>
  One turn of the \<^verbatim>\<open>while\<close> loop either returns from \<^verbatim>\<open>get_score\<close> or goes round
  again with a new \<^verbatim>\<open>(year, month, years_checked)\<close>.
\<close>

datatype turn =
    Return score_result config world
  | Again "int \<times> int \<times> int" config world

text \<open>The tail shared by the three failure paths, after the month has been stepped back.\<close>

definition try_previous :: "int \<Rightarrow> int \<times> int \<times> int \<Rightarrow> config \<Rightarrow> world \<Rightarrow> turn" where
  "try_previous max_years_to_check st cfg w =
     (if snd (snd (previous_month st)) > max_years_to_check
      then Return exhausted cfg w
      else Again (previous_month st) cfg w)"

text \<open>The three \<^verbatim>\<open>config.set\<close> calls of the branch that has found a score.\<close>

definition found_update :: "config \<Rightarrow> string \<Rightarrow> string \<Rightarrow> config" where
  "found_update cfg section_name new_endpoint =
     cfg_set (cfg_set (cfg_set cfg section_name ''polling_interval'' disabled_interval)
                section_name ''endpoint'' new_endpoint)
       section_name ''polling_interval'' never_schedule"

text \<open>
  The body of the loop. The credentials are looked up on every turn; the \<^verbatim>\<open>try\<close> spans the
  request, the parsing, the three \<^verbatim>\<open>config.set\<close> calls and the write of the file, so a write
  that fails lands in \<^verbatim>\<open>except Exception\<close> like a parsing error does, with the parser object
  already changed.
\<close>

definition loop_body ::
  "fetch_oracle \<Rightarrow> write_oracle \<Rightarrow> string \<Rightarrow> string \<Rightarrow> int \<Rightarrow> int \<times> int \<times> int \<Rightarrow>
   config \<Rightarrow> world \<Rightarrow> turn" where
  "loop_body F W property_id section_name max_years_to_check st cfg w =
     (case get_credentials_from_config cfg section_name of
        None \<Rightarrow> Return exhausted cfg w
      | Some auth \<Rightarrow>
          (case http_get F (metrics_url property_id (fst st) (fst (snd st))) auth w of
             (RequestException, w1) \<Rightarrow> try_previous max_years_to_check st cfg w1
           | (OtherException, w1) \<Rightarrow> try_previous max_years_to_check st cfg w1
           | (ScoreText score_text, w1) \<Rightarrow>
               if score_text = [] then try_previous max_years_to_check st cfg w1
               else
                 (case write_config W
                         (found_update cfg section_name
                            (metrics_url property_id (fst st) (fst (snd st)))) w1 of
                    (True, w2) \<Rightarrow>
                      Return (True, Some (fst st), Some (fst (snd st)))
                        (found_update cfg section_name
                           (metrics_url property_id (fst st) (fst (snd st)))) w2
                  | (False, w2) \<Rightarrow>
                      try_previous max_years_to_check st
                        (found_update cfg section_name
                           (metrics_url property_id (fst st) (fst (snd st)))) w2)))"

text \<open>
  The \<^verbatim>\<open>while years_checked <= max_years_to_check\<close> loop. Python's integers are
  unbounded, so a month that starts below 1 is stepped down for ever; the result is an
  option and \<open>None\<close> is the loop that never returns.
\<close>

partial_function (option) score_loop ::
  "fetch_oracle \<Rightarrow> write_oracle \<Rightarrow> string \<Rightarrow> string \<Rightarrow> int \<Rightarrow> int \<times> int \<times> int \<Rightarrow>
   config \<Rightarrow> world \<Rightarrow> (score_result \<times> config \<times> world) option" where
  "score_loop F W property_id section_name max_years_to_check st cfg w =
     (if snd (snd st) \<le> max_years_to_check then
        (case loop_body F W property_id section_name max_years_to_check st cfg w of
           Return r cfg' w' \<Rightarrow> Some (r, cfg', w')
         | Again st' cfg' w' \<Rightarrow>
             score_loop F W property_id section_name max_years_to_check st' cfg' w')
      else Some (exhausted, cfg, w))"

declare score_loop.simps [code]

definition get_score ::
  "fetch_oracle \<Rightarrow> write_oracle \<Rightarrow> string \<Rightarrow> int \<Rightarrow> int \<Rightarrow> string \<Rightarrow> config \<Rightarrow> int \<Rightarrow>
   world \<Rightarrow> (score_result \<times> config \<times> world) option" where
  "get_score F W property_id year month section_name cfg max_years_to_check w =
     (if section_name = weather_section then Some (exhausted, cfg, w)
      else score_loop F W property_id section_name max_years_to_check (year, month, 0) cfg w)"

section \<open>The orchestrator\<close>

record tally =
  updated_count :: nat
  skipped_count :: nat
  error_count :: nat

text \<open>
  The first loop of \<^verbatim>\<open>main\<close>: every section but the weather one that has a
  \<^verbatim>\<open>polling_interval\<close> other than \<^verbatim>\<open>999999\<close> gets \<^verbatim>\<open>999999\<close>, and \<^verbatim>\<open>modified\<close> records
  that something was set.
\<close>

fun disable_polling :: "string list \<Rightarrow> config \<Rightarrow> bool \<Rightarrow> config \<times> bool" where
  "disable_polling [] cfg modified = (cfg, modified)"
| "disable_polling (s # ss) cfg modified =
     (if s \<noteq> weather_section \<and> has_option cfg s ''polling_interval'' then
        (if cfg_get cfg s ''polling_interval'' \<noteq> Some disabled_interval
         then disable_polling ss (cfg_set cfg s ''polling_interval'' disabled_interval) True
         else disable_polling ss cfg modified)
      else disable_polling ss cfg modified)"

text \<open>
  The pre-pass with its write: \<open>None\<close> is the \<^verbatim>\<open>OSError\<close> of the write, which leaves
  \<^verbatim>\<open>main\<close> through its handler; otherwise the parser object the main pass goes on with
  (read back from the file when the file was written).
\<close>

definition pre_pass :: "write_oracle \<Rightarrow> string list \<Rightarrow> config \<Rightarrow> world \<Rightarrow> config option \<times> world" where
  "pre_pass W secs cfg w =
     (case disable_polling secs cfg False of
        (cfg', True) \<Rightarrow>
          (case write_config W cfg' w of
             (True, w') \<Rightarrow> (Some (disk w'), w')
           | (False, w') \<Rightarrow> (None, w'))
      | (cfg', False) \<Rightarrow> (Some cfg', w))"

text \<open>
  One turn of the second loop of \<^verbatim>\<open>main\<close>, with its three counters. \<^verbatim>\<open>not property_id\<close>
  holds for \<^verbatim>\<open>None\<close> and for the empty string.
\<close>

definition process_section ::
  "fetch_oracle \<Rightarrow> write_oracle \<Rightarrow> int \<Rightarrow> int \<Rightarrow> string \<Rightarrow> tally \<Rightarrow> config \<Rightarrow> world \<Rightarrow>
   (tally \<times> config \<times> world) option" where
  "process_section F W current_year current_month s t cfg w =
     (if s = weather_section then Some (t\<lparr>skipped_count := skipped_count t + 1\<rparr>, cfg, w)
      else if \<not> has_option cfg s ''endpoint''
      then Some (t\<lparr>skipped_count := skipped_count t + 1\<rparr>, cfg, w)
      else
        (case extract_property_id (the (cfg_get cfg s ''endpoint'')) of
           None \<Rightarrow> Some (t\<lparr>skipped_count := skipped_count t + 1\<rparr>, cfg, w)
         | Some property_id \<Rightarrow>
             if property_id = []
             then Some (t\<lparr>skipped_count := skipped_count t + 1\<rparr>, cfg, w)
             else
               (case get_score F W property_id current_year current_month s cfg 1 w of
                  None \<Rightarrow> None
                | Some ((success, y, m), cfg', w') \<Rightarrow>
                    if success then Some (t\<lparr>updated_count := updated_count t + 1\<rparr>, cfg', w')
                    else if \<not> success
                    then Some (t\<lparr>error_count := error_count t + 1\<rparr>, cfg', w')
                    else Some (t\<lparr>skipped_count := skipped_count t + 1\<rparr>, cfg', w'))))"

fun main_pass ::
  "fetch_oracle \<Rightarrow> write_oracle \<Rightarrow> int \<Rightarrow> int \<Rightarrow> string list \<Rightarrow> tally \<Rightarrow> config \<Rightarrow> world \<Rightarrow>
   (tally \<times> config \<times> world) option" where
  "main_pass F W current_year current_month [] t cfg w = Some (t, cfg, w)"
| "main_pass F W current_year current_month (s # ss) t cfg w =
     (case process_section F W current_year current_month s t cfg w of
        None \<Rightarrow> None
      | Some (t', cfg', w') \<Rightarrow> main_pass F W current_year current_month ss t' cfg' w')"

text \<open>
  How a run of \<^verbatim>\<open>main\<close> ends: the early return on a file without sections, the final
  tally, or the handler of \<^verbatim>\<open>except Exception\<close> (``Error occured, Please check log file'').
\<close>

datatype run_result = NoSections | Completed tally | Aborted

definition main ::
  "fetch_oracle \<Rightarrow> write_oracle \<Rightarrow> int \<Rightarrow> int \<Rightarrow> world \<Rightarrow> (run_result \<times> world) option" where
  "main F W current_year current_month w =
     (if sections (disk w) = [] then Some (NoSections, w)
      else
        (case pre_pass W (sections (disk w)) (disk w) w of
           (None, w1) \<Rightarrow> Some (Aborted, w1)
         | (Some cfg1, w1) \<Rightarrow>
             (case main_pass F W current_year current_month (sections (disk w))
                     \<lparr>updated_count = 0, skipped_count = 0, error_count = 0\<rparr> cfg1 w1 of
                None \<Rightarrow> None
              | Some (t, cfg2, w2) \<Rightarrow> Some (Completed t, w2))))"

section \<open>Vocabulary of the properties\<close>

text \<open>A server that never has a score: every call fails or comes back empty.\<close>

definition no_score :: "fetch_oracle \<Rightarrow> bool" where
  "no_score F =
     (\<forall>n url auth. F n url auth = RequestException \<or> F n url auth = OtherException \<or>
        F n url auth = ScoreText [])"

text \<open>The world after \<open>n\<close> more HTTP calls.\<close>

definition called :: "nat \<Rightarrow> world \<Rightarrow> world" where
  "called n w = w\<lparr>http_calls := http_calls w + n\<rparr>"

subsection \<open>Concrete files and servers\<close>

text \<open>
  A file with one building that has everything, a file whose building has no credentials,
  a fresh world around a file, and a few servers and disks.
\<close>

definition building_cfg :: config where
  "building_cfg =
     [(''rest://Building1'',
        [(''endpoint'', ''https://portfoliomanager.energystar.gov/ws/property/12345/metrics?year=2023&month=6''),
         (''polling_interval'', ''60''),
         (''auth_user'', ''user''),
         (''auth_password'', ''secret'')])]"

definition no_auth_cfg :: config where
  "no_auth_cfg =
     [(''rest://Building2'',
        [(''endpoint'', ''https://portfoliomanager.energystar.gov/ws/property/777/metrics?year=2023&month=6''),
         (''polling_interval'', ''60'')])]"

definition fresh :: "config \<Rightarrow> world" where
  "fresh cfg = \<lparr>disk = cfg, http_calls = 0, file_writes = 0\<rparr>"

definition always_empty :: fetch_oracle where
  "always_empty n url auth = ScoreText []"

definition third_is_75 :: fetch_oracle where
  "third_is_75 n url auth = (if n = 2 then ScoreText ''75'' else ScoreText [])"

definition always_75 :: fetch_oracle where
  "always_75 n url auth = ScoreText ''75''"

definition always_ok :: write_oracle where
  "always_ok n = True"

subsection \<open>The pre-pass and the tally\<close>

text \<open>
  The sections whose interval the pre-pass has to set, and whether the pre-pass has changed
  the interval of some section.
\<close>

definition needs_disabling :: "config \<Rightarrow> string \<Rightarrow> bool" where
  "needs_disabling cfg s =
     (s \<noteq> weather_section \<and> has_option cfg s ''polling_interval'' \<and>
      cfg_get cfg s ''polling_interval'' \<noteq> Some disabled_interval)"

definition polling_changed :: "config \<Rightarrow> config \<Rightarrow> bool" where
  "polling_changed cfg cfg' =
     (\<exists>s \<in> set (sections cfg). cfg_get cfg' s ''polling_interval'' \<noteq> cfg_get cfg s ''polling_interval'')"

text \<open>
  The three branches of the main pass that skip a section before any search: the weather
  section, no \<^verbatim>\<open>endpoint\<close> option, no property id in the endpoint.
\<close>

definition skipped_before_search :: "config \<Rightarrow> string \<Rightarrow> bool" where
  "skipped_before_search cfg s =
     (s = weather_section \<or> \<not> has_option cfg s ''endpoint'' \<or>
      extract_property_id (the (cfg_get cfg s ''endpoint'')) = None)"

definition total :: "tally \<Rightarrow> nat" where
  "total t = updated_count t + error_count t + skipped_count t"

text \<open>
  A file with the weather section, a complete building, a building without credentials
  whose polling is already disabled, and a section without endpoint; and the same file
  after the pre-pass.
\<close>

definition mixed_cfg :: config where
  "mixed_cfg =
     [(''rest://WeatherTest3'',
        [(''endpoint'', ''https://weather.example/ws/today''),
         (''polling_interval'', ''30'')]),
      (''rest://Building1'',
        [(''endpoint'', ''https://portfoliomanager.energystar.gov/ws/property/12345/metrics?year=2023&month=6''),
         (''polling_interval'', ''60''),
         (''auth_user'', ''user''),
         (''auth_password'', ''secret'')]),
      (''rest://Building2'',
        [(''endpoint'', ''https://portfoliomanager.energystar.gov/ws/property/777/metrics?year=2023&month=6''),
         (''polling_interval'', ''999999'')]),
      (''rest://Building3'',
        [(''polling_interval'', ''60'')])]"

definition mixed_cfg_disabled :: config where
  "mixed_cfg_disabled =
     [(''rest://WeatherTest3'',
        [(''endpoint'', ''https://weather.example/ws/today''),
         (''polling_interval'', ''30'')]),
      (''rest://Building1'',
        [(''endpoint'', ''https://portfoliomanager.energystar.gov/ws/property/12345/metrics?year=2023&month=6''),
         (''polling_interval'', ''999999''),
         (''auth_user'', ''user''),
         (''auth_password'', ''secret'')]),
      (''rest://Building2'',
        [(''endpoint'', ''https://portfoliomanager.energystar.gov/ws/property/777/metrics?year=2023&month=6''),
         (''polling_interval'', ''999999'')]),
      (''rest://Building3'',
        [(''polling_interval'', ''999999'')])]"

text \<open>A disk whose second write fails, and the files some of the runs below end with.\<close>

definition second_write_fails :: write_oracle where
  "second_write_fails n = (n \<noteq> 1)"

definition building_cfg_disabled :: config where
  "building_cfg_disabled =
     [(''rest://Building1'',
        [(''endpoint'', ''https://portfoliomanager.energystar.gov/ws/property/12345/metrics?year=2023&month=6''),
         (''polling_interval'', ''999999''),
         (''auth_user'', ''user''),
         (''auth_password'', ''secret'')])]"

definition mixed_cfg_updated :: config where
  "mixed_cfg_updated =
     [(''rest://WeatherTest3'',
        [(''endpoint'', ''https://weather.example/ws/today''),
         (''polling_interval'', ''30'')]),
      (''rest://Building1'',
        [(''endpoint'', ''https://portfoliomanager.energystar.gov/ws/property/12345/metrics?year=2024&month=1''),
         (''polling_interval'', ''0 0 5 31 2 ?''),
         (''auth_user'', ''user''),
         (''auth_password'', ''secret'')]),
      (''rest://Building2'',
        [(''endpoint'', ''https://portfoliomanager.energystar.gov/ws/property/777/metrics?year=2023&month=6''),
         (''polling_interval'', ''999999'')]),
      (''rest://Building3'',
        [(''polling_interval'', ''999999'')])]"

section \<open>The parser\<close>

lemma sections_cfg_set: "sections (cfg_set cfg s k v) = sections cfg"
  unfolding sections_def cfg_set_def by (induction cfg) auto

lemma map_of_cfg_set:
  "map_of (cfg_set cfg s k v) s' =
     (if s' = s then map_option (AList.update k v) (map_of cfg s) else map_of cfg s')"
  unfolding cfg_set_def by (induction cfg) auto

lemma has_section_cfg_set: "has_section (cfg_set cfg s k v) s' = has_section cfg s'"
  by (simp add: has_section_def map_of_cfg_set)

lemma cfg_get_cfg_set:
  "cfg_get (cfg_set cfg s k v) s' k' =
     (if s' = s \<and> k' = k \<and> has_section cfg s then Some v else cfg_get cfg s' k')"
  by (auto simp: cfg_get_def map_of_cfg_set has_section_def update_conv' split: option.splits)

section \<open>The pattern\<close>

lemma strip_prefix_Some: "strip_prefix p s = Some r \<longleftrightarrow> s = p @ r"
  by (induction p s rule: strip_prefix.induct) auto

lemma strip_prefix_append: "strip_prefix p (p @ r) = Some r"
  by (simp add: strip_prefix_Some)

lemma slash_not_digit: "\<not> is_digit CHR ''/''"
  by (simp add: is_digit_def)

lemma match_here_Some:
  "match_here s = Some ds \<longleftrightarrow>
     (\<exists>post. s = ''/property/'' @ ds @ ''/metrics'' @ post \<and> ds \<noteq> [] \<and> (\<forall>c \<in> set ds. is_digit c))"
proof
  assume m: "match_here s = Some ds"
  then obtain rest where r: "strip_prefix ''/property/'' s = Some rest"
    by (auto simp: match_here_def split: option.splits)
  with m have ds: "ds = takeWhile is_digit rest" and ne: "ds \<noteq> []"
    and "strip_prefix ''/metrics'' (dropWhile is_digit rest) \<noteq> None"
    by (auto simp: match_here_def split: if_splits)
  then obtain post where p: "dropWhile is_digit rest = ''/metrics'' @ post"
    by (auto simp: strip_prefix_Some)
  have "rest = ds @ ''/metrics'' @ post"
    using takeWhile_dropWhile_id [of is_digit rest] ds p by simp
  moreover have "s = ''/property/'' @ rest" using r by (simp add: strip_prefix_Some)
  moreover have "\<forall>c \<in> set ds. is_digit c" using ds by (auto dest: set_takeWhileD)
  ultimately show "\<exists>post. s = ''/property/'' @ ds @ ''/metrics'' @ post \<and> ds \<noteq> [] \<and> (\<forall>c \<in> set ds. is_digit c)"
    using ne by blast
next
  assume "\<exists>post. s = ''/property/'' @ ds @ ''/metrics'' @ post \<and> ds \<noteq> [] \<and> (\<forall>c \<in> set ds. is_digit c)"
  then obtain post where s: "s = ''/property/'' @ (ds @ ''/metrics'' @ post)" and ne: "ds \<noteq> []"
    and dg: "\<forall>c \<in> set ds. is_digit c" by auto
  have r: "strip_prefix ''/property/'' s = Some (ds @ ''/metrics'' @ post)"
    unfolding s by (rule strip_prefix_append)
  have t: "takeWhile is_digit (ds @ ''/metrics'' @ post) = ds"
    using dg slash_not_digit by (simp add: takeWhile_append2)
  have d: "dropWhile is_digit (ds @ ''/metrics'' @ post) = ''/metrics'' @ post"
    using dg slash_not_digit by (simp add: dropWhile_append2)
  have "strip_prefix ''/metrics'' (''/metrics'' @ post) = Some post"
    by (rule strip_prefix_append)
  then show "match_here s = Some ds"
    using r t d ne by (simp add: match_here_def)
qed

lemma re_search_contains: "re_search s \<noteq> None \<Longrightarrow> contains_pattern s"
proof (induction s)
  case Nil
  then show ?case by (simp add: match_here_def)
next
  case (Cons c cs)
  show ?case
  proof (cases "match_here (c # cs)")
    case None
    with Cons have "contains_pattern cs" by simp
    then obtain pre ds post where "cs = pre @ ''/property/'' @ ds @ ''/metrics'' @ post"
      "ds \<noteq> []" "\<forall>c \<in> set ds. is_digit c" unfolding contains_pattern_def by blast
    then have "c # cs = (c # pre) @ ''/property/'' @ ds @ ''/metrics'' @ post \<and> ds \<noteq> [] \<and> (\<forall>c \<in> set ds. is_digit c)"
      by simp
    then show ?thesis unfolding contains_pattern_def by blast
  next
    case (Some ds)
    then obtain post where "c # cs = [] @ ''/property/'' @ ds @ ''/metrics'' @ post \<and> ds \<noteq> [] \<and> (\<forall>c \<in> set ds. is_digit c)"
      unfolding match_here_Some by auto
    then show ?thesis unfolding contains_pattern_def by blast
  qed
qed

lemma re_search_skip: "match_here rest \<noteq> None \<Longrightarrow> re_search (pre @ rest) \<noteq> None"
proof (induction pre)
  case Nil
  then show ?case by (cases rest) (auto split: option.splits)
next
  case (Cons p pre)
  then show ?case by (auto split: option.splits)
qed

lemma contains_re_search: "contains_pattern s \<Longrightarrow> re_search s \<noteq> None"
proof -
  assume "contains_pattern s"
  then obtain pre ds post where s: "s = pre @ (''/property/'' @ ds @ ''/metrics'' @ post)"
    and "ds \<noteq> []" "\<forall>c \<in> set ds. is_digit c" unfolding contains_pattern_def by blast
  then have "match_here (''/property/'' @ ds @ ''/metrics'' @ post) = Some ds"
    unfolding match_here_Some by blast
  then show ?thesis unfolding s by (intro re_search_skip) simp
qed

lemma re_search_digits:
  "re_search s = Some ds \<Longrightarrow> ds \<noteq> [] \<and> (\<forall>c \<in> set ds. is_digit c)"
proof (induction s)
  case Nil
  then show ?case by (simp add: match_here_def)
next
  case (Cons c cs)
  then show ?case by (cases "match_here (c # cs)") (auto simp: match_here_Some)
qed

lemma extract_property_id_digits:
  "extract_property_id e = Some pid \<Longrightarrow> pid \<noteq> [] \<and> (\<forall>c \<in> set pid. is_digit c)"
  unfolding extract_property_id_def by (rule re_search_digits)

lemma extract_None_iff: "extract_property_id url = None \<longleftrightarrow> \<not> contains_pattern url"
  unfolding extract_property_id_def
  using re_search_contains [of url] contains_re_search [of url] by blast

text \<open>
  C9. Property-id extraction returns \<^verbatim>\<open>12345\<close> on
  \<^verbatim>\<open>https://host/ws/property/12345/metrics?year=2024&month=1\<close>, and returns \<open>None\<close> for
  every URL that does not contain the pattern \<^verbatim>\<open>/property/{digits}/metrics\<close>.
\<close>

theorem extract_property_id_spec:
  "extract_property_id ''https://host/ws/property/12345/metrics?year=2024&month=1'' = Some ''12345'' \<and>
   (\<not> contains_pattern url \<longrightarrow> extract_property_id url = None)"
proof
  show "extract_property_id ''https://host/ws/property/12345/metrics?year=2024&month=1'' = Some ''12345''"
    by (simp add: extract_property_id_def match_here_def is_digit_def)
  show "\<not> contains_pattern url \<longrightarrow> extract_property_id url = None"
    by (simp add: extract_None_iff)
qed

theorem extract_property_id_spec_witness:
  "\<not> contains_pattern ''https://host/ws/weather?year=2024'' \<and>
   extract_property_id ''https://host/ws/weather?year=2024'' = None"
proof -
  have n: "extract_property_id ''https://host/ws/weather?year=2024'' = None"
    by (simp add: extract_property_id_def match_here_def)
  then have h: "\<not> contains_pattern ''https://host/ws/weather?year=2024''"
    by (simp add: extract_None_iff)
  with extract_property_id_spec [of "''https://host/ws/weather?year=2024''"] show ?thesis by blast
qed

section \<open>The loop of the backward search\<close>

lemma previous_month_simps:
  "previous_month (year, month, yc) =
     (if month = 1 then (year - 1, 12, yc + 1) else (year, month - 1, yc))"
  by (simp add: previous_month_def)

lemma loop_body_no_credentials:
  "get_credentials_from_config cfg s = None \<Longrightarrow> loop_body F W pid s maxy st cfg w = Return exhausted cfg w"
  by (simp add: loop_body_def)

lemma score_loop_no_credentials:
  "get_credentials_from_config cfg s = None \<Longrightarrow> score_loop F W pid s maxy st cfg w = Some (exhausted, cfg, w)"
  by (subst score_loop.simps) (simp add: loop_body_no_credentials)

lemma loop_body_failure:
  assumes "get_credentials_from_config cfg s = Some auth"
    and "F (http_calls w) (metrics_url pid year month) auth = RequestException \<or>
         F (http_calls w) (metrics_url pid year month) auth = OtherException \<or>
         F (http_calls w) (metrics_url pid year month) auth = ScoreText []"
  shows "loop_body F W pid s maxy (year, month, yc) cfg w =
           try_previous maxy (year, month, yc) cfg (called 1 w)"
  using assms by (auto simp: loop_body_def http_get_def called_def)

lemma score_loop_no_score:
  assumes "no_score F" and "get_credentials_from_config cfg s = Some auth"
  shows "1 \<le> month \<Longrightarrow> yc \<le> maxy \<Longrightarrow> n = nat (month + 12 * (maxy - yc)) \<Longrightarrow>
         score_loop F W pid s maxy (year, month, yc) cfg w = Some (exhausted, cfg, called n w)"
proof (induction n arbitrary: year month yc w rule: less_induct)
  case (less n)
  have f: "F (http_calls w) (metrics_url pid year month) auth = RequestException \<or>
         F (http_calls w) (metrics_url pid year month) auth = OtherException \<or>
         F (http_calls w) (metrics_url pid year month) auth = ScoreText []"
    using assms(1) unfolding no_score_def by blast
  have body: "loop_body F W pid s maxy (year, month, yc) cfg w =
           try_previous maxy (year, month, yc) cfg (called 1 w)"
    using assms(2) f by (rule loop_body_failure)
  show ?case
  proof (cases "month = 1")
    case True
    show ?thesis
    proof (cases "yc + 1 > maxy")
      case True
      with \<open>month = 1\<close> less.prems have "n = 1" by simp
      with True \<open>month = 1\<close> less.prems(2) body show ?thesis
        by (subst score_loop.simps) (simp add: try_previous_def previous_month_simps)
    next
      case False
      define k where "k = nat (12 + 12 * (maxy - (yc + 1)))"
      have kn: "k < n" "n = k + 1" using less.prems \<open>month = 1\<close> False by (simp_all add: k_def)
      have "score_loop F W pid s maxy (year - 1, 12, yc + 1) cfg (called 1 w) =
              Some (exhausted, cfg, called k (called 1 w))"
        using False by (intro less.IH [OF kn(1)]) (simp_all add: k_def)
      moreover have "called k (called 1 w) = called n w"
        using kn by (simp add: called_def)
      ultimately show ?thesis
        using False \<open>month = 1\<close> less.prems(2) body
        by (subst score_loop.simps) (simp add: try_previous_def previous_month_simps)
    qed
  next
    case False
    define k where "k = nat ((month - 1) + 12 * (maxy - yc))"
    have kn: "k < n" "n = k + 1" using less.prems False by (simp_all add: k_def)
    have "score_loop F W pid s maxy (year, month - 1, yc) cfg (called 1 w) =
              Some (exhausted, cfg, called k (called 1 w))"
      using False less.prems by (intro less.IH [OF kn(1)]) (simp_all add: k_def)
    moreover have "called k (called 1 w) = called n w"
      using kn by (simp add: called_def)
    ultimately show ?thesis
      using False less.prems(2) body
      by (subst score_loop.simps) (simp add: try_previous_def previous_month_simps)
  qed
qed

lemma credentials_has_section:
  "get_credentials_from_config cfg s = Some auth \<Longrightarrow> has_section cfg s"
  by (auto simp: get_credentials_from_config_def split: if_splits)

lemma cfg_get_found_update:
  "has_section cfg s \<Longrightarrow> cfg_get (found_update cfg s e) s ''endpoint'' = Some e"
  by (simp add: found_update_def cfg_get_cfg_set has_section_cfg_set)

lemma loop_body_found:
  assumes "get_credentials_from_config cfg s = Some auth"
    and "F (http_calls w) (metrics_url pid year month) auth = ScoreText t" and "t \<noteq> []"
    and "W (file_writes w)"
  shows "loop_body F W pid s maxy (year, month, yc) cfg w =
           Return (True, Some year, Some month) (found_update cfg s (metrics_url pid year month))
             (w\<lparr>disk := found_update cfg s (metrics_url pid year month),
                http_calls := http_calls w + 1, file_writes := file_writes w + 1\<rparr>)"
  using assms by (simp add: loop_body_def http_get_def write_config_def)

text \<open>
  C6. For every section whose credentials resolve to \<open>None\<close>, \<^verbatim>\<open>get_score\<close> returns the
  failure triple and has made no HTTP call: the parser and the world, with its count of
  calls, come back as they went in.
\<close>

theorem get_score_missing_credentials:
  "get_credentials_from_config cfg section_name = None \<Longrightarrow>
   get_score F W property_id year month section_name cfg max_years_to_check w =
     Some (exhausted, cfg, w)"
  by (simp add: get_score_def score_loop_no_credentials)

theorem get_score_missing_credentials_witness:
  "get_credentials_from_config no_auth_cfg ''rest://Building2'' = None \<and>
   get_score always_75 always_ok ''777'' 2024 3 ''rest://Building2'' no_auth_cfg 1 (fresh no_auth_cfg) =
     Some (exhausted, no_auth_cfg, fresh no_auth_cfg) \<and>
   http_calls (fresh no_auth_cfg) = 0"
proof -
  have h: "get_credentials_from_config no_auth_cfg ''rest://Building2'' = None"
    by (simp add: get_credentials_from_config_def has_section_def cfg_get_def no_auth_cfg_def)
  from get_score_missing_credentials [OF h] h show ?thesis by (simp add: fresh_def)
qed

text \<open>
  C5. On an empty answer or an error, one turn of the loop steps the month back: month 1
  wraps to month 12 of the year before and counts one more year checked (the search ends
  there when that exceeds the bound), any other month is decremented; \<open>(2024, 1)\<close> steps
  to \<open>(2023, 12)\<close>.
\<close>

theorem month_step_back:
  assumes "get_credentials_from_config cfg section_name = Some auth"
    and "F (http_calls w) (metrics_url property_id year month) auth = ScoreText [] \<or>
         F (http_calls w) (metrics_url property_id year month) auth = RequestException \<or>
         F (http_calls w) (metrics_url property_id year month) auth = OtherException"
    and "years_checked \<le> max_years_to_check"
  shows "loop_body F W property_id section_name max_years_to_check
           (year, month, years_checked) cfg w =
           (if month = 1 then
              (if years_checked + 1 > max_years_to_check then Return exhausted cfg (called 1 w)
               else Again (year - 1, 12, years_checked + 1) cfg (called 1 w))
            else Again (year, month - 1, years_checked) cfg (called 1 w)) \<and>
         previous_month (2024, 1, years_checked) = (2023, 12, years_checked + 1)"
proof -
  have "loop_body F W property_id section_name max_years_to_check
          (year, month, years_checked) cfg w =
          try_previous max_years_to_check (year, month, years_checked) cfg (called 1 w)"
    using assms(1,2) by (intro loop_body_failure) auto
  then show ?thesis
    using assms(3) by (simp add: try_previous_def previous_month_simps)
qed

theorem month_step_back_witness:
  "get_credentials_from_config building_cfg ''rest://Building1'' = Some (''user'', ''secret'') \<and>
   loop_body always_empty always_ok ''12345'' ''rest://Building1'' 1 (2024, 1, 0)
     building_cfg (fresh building_cfg) =
     Again (2023, 12, 1) building_cfg \<lparr>disk = building_cfg, http_calls = 1, file_writes = 0\<rparr>"
proof -
  have h1: "get_credentials_from_config building_cfg ''rest://Building1'' = Some (''user'', ''secret'')"
    by (simp add: get_credentials_from_config_def has_section_def cfg_get_def building_cfg_def)
  have h2: "always_empty (http_calls (fresh building_cfg)) (metrics_url ''12345'' 2024 1)
              (''user'', ''secret'') = ScoreText [] \<or>
            always_empty (http_calls (fresh building_cfg)) (metrics_url ''12345'' 2024 1)
              (''user'', ''secret'') = RequestException \<or>
            always_empty (http_calls (fresh building_cfg)) (metrics_url ''12345'' 2024 1)
              (''user'', ''secret'') = OtherException"
    by (simp add: always_empty_def)
  have h3: "(0::int) \<le> 1" by simp
  from month_step_back [where F = always_empty and W = always_ok
      and w = "fresh building_cfg" and property_id = "''12345''" and year = 2024
      and month = 1, OF h1 h2 h3] h1 show ?thesis
    by (simp add: called_def fresh_def)
qed

text \<open>
  C4. Starting at \<open>(2024, 3)\<close>, when the first two calls come back empty and the third
  has the score \<^verbatim>\<open>75\<close>, \<^verbatim>\<open>get_score\<close> succeeds with \<open>(2024, 1)\<close> after exactly three calls,
  and the endpoint it has set for the section, and written, contains
  \<^verbatim>\<open>year=2024&month=1\<close>.
\<close>

theorem found_after_three_attempts:
  assumes "section_name \<noteq> weather_section"
    and "get_credentials_from_config cfg section_name = Some auth"
    and "F (http_calls w) (metrics_url property_id 2024 3) auth = ScoreText []"
    and "F (http_calls w + 1) (metrics_url property_id 2024 2) auth = ScoreText []"
    and "F (http_calls w + 2) (metrics_url property_id 2024 1) auth = ScoreText ''75''"
    and "W (file_writes w)"
  shows "get_score F W property_id 2024 3 section_name cfg 1 w =
           Some ((True, Some 2024, Some 1),
                 found_update cfg section_name (metrics_url property_id 2024 1),
                 w\<lparr>disk := found_update cfg section_name (metrics_url property_id 2024 1),
                   http_calls := http_calls w + 3, file_writes := file_writes w + 1\<rparr>) \<and>
         cfg_get (found_update cfg section_name (metrics_url property_id 2024 1))
           section_name ''endpoint'' = Some (metrics_url property_id 2024 1) \<and>
         sublist ''year=2024&month=1'' (metrics_url property_id 2024 1)"
proof -
  have b1: "loop_body F W property_id section_name 1 (2024, 3, 0) cfg w =
              Again (2024, 2, 0) cfg (called 1 w)"
    using assms(2,3)
    by (subst loop_body_failure [where auth = auth])
       (simp_all add: try_previous_def previous_month_simps)
  have b2: "loop_body F W property_id section_name 1 (2024, 2, 0) cfg (called 1 w) =
              Again (2024, 1, 0) cfg (called 2 w)"
    using assms(2,4)
    by (subst loop_body_failure [where auth = auth])
       (simp_all add: try_previous_def previous_month_simps called_def)
  have b3: "loop_body F W property_id section_name 1 (2024, 1, 0) cfg (called 2 w) =
              Return (True, Some 2024, Some 1)
                (found_update cfg section_name (metrics_url property_id 2024 1))
                (w\<lparr>disk := found_update cfg section_name (metrics_url property_id 2024 1),
                   http_calls := http_calls w + 3, file_writes := file_writes w + 1\<rparr>)"
    using assms(2,5,6)
    by (subst loop_body_found [where auth = auth and t = "''75''"]) (simp_all add: called_def)
  have l3: "score_loop F W property_id section_name 1 (2024, 1, 0) cfg (called 2 w) =
              Some ((True, Some 2024, Some 1),
                 found_update cfg section_name (metrics_url property_id 2024 1),
                 w\<lparr>disk := found_update cfg section_name (metrics_url property_id 2024 1),
                   http_calls := http_calls w + 3, file_writes := file_writes w + 1\<rparr>)"
    by (subst score_loop.simps, subst b3) simp
  have l2: "score_loop F W property_id section_name 1 (2024, 2, 0) cfg (called 1 w) =
              score_loop F W property_id section_name 1 (2024, 1, 0) cfg (called 2 w)"
    by (subst score_loop.simps, subst b2) simp
  have l1: "score_loop F W property_id section_name 1 (2024, 3, 0) cfg w =
              score_loop F W property_id section_name 1 (2024, 2, 0) cfg (called 1 w)"
    by (subst score_loop.simps, subst b1) simp
  have url: "metrics_url property_id 2024 1 =
      (''https://portfoliomanager.energystar.gov/ws/property/'' @ property_id @ ''/metrics?'') @
      ''year=2024&month=1'' @ []"
    by (simp add: metrics_url_def str_int_def str_nat.simps digit_char_def)
  have sub: "sublist ''year=2024&month=1'' (metrics_url property_id 2024 1)"
    unfolding sublist_def by (intro exI) (rule url)
  have ep: "cfg_get (found_update cfg section_name (metrics_url property_id 2024 1))
           section_name ''endpoint'' = Some (metrics_url property_id 2024 1)"
    using assms(2) by (intro cfg_get_found_update credentials_has_section)
  show ?thesis using assms(1) l1 l2 l3 sub ep by (simp add: get_score_def)
qed

theorem found_after_three_attempts_witness:
  "''rest://Building1'' \<noteq> weather_section \<and>
   get_credentials_from_config building_cfg ''rest://Building1'' = Some (''user'', ''secret'') \<and>
   get_score third_is_75 always_ok ''12345'' 2024 3 ''rest://Building1'' building_cfg 1 (fresh building_cfg) =
     Some ((True, Some 2024, Some 1),
           found_update building_cfg ''rest://Building1'' (metrics_url ''12345'' 2024 1),
           \<lparr>disk = found_update building_cfg ''rest://Building1'' (metrics_url ''12345'' 2024 1),
            http_calls = 3, file_writes = 1\<rparr>) \<and>
   cfg_get (found_update building_cfg ''rest://Building1'' (metrics_url ''12345'' 2024 1))
     ''rest://Building1'' ''endpoint'' =
     Some ''https://portfoliomanager.energystar.gov/ws/property/12345/metrics?year=2024&month=1''"
proof -
  have h1: "''rest://Building1'' \<noteq> weather_section" by (simp add: weather_section_def)
  have h2: "get_credentials_from_config building_cfg ''rest://Building1'' = Some (''user'', ''secret'')"
    by (simp add: get_credentials_from_config_def has_section_def cfg_get_def building_cfg_def)
  have h3: "third_is_75 (http_calls (fresh building_cfg)) (metrics_url ''12345'' 2024 3) (''user'', ''secret'') = ScoreText []"
    and h4: "third_is_75 (http_calls (fresh building_cfg) + 1) (metrics_url ''12345'' 2024 2) (''user'', ''secret'') = ScoreText []"
    and h5: "third_is_75 (http_calls (fresh building_cfg) + 2) (metrics_url ''12345'' 2024 1) (''user'', ''secret'') = ScoreText ''75''"
    by (simp_all add: third_is_75_def fresh_def)
  have h6: "always_ok (file_writes (fresh building_cfg))" by (simp add: always_ok_def)
  have u: "metrics_url ''12345'' 2024 1 = ''https://portfoliomanager.energystar.gov/ws/property/12345/metrics?year=2024&month=1''"
    by (simp add: metrics_url_def str_int_def str_nat.simps digit_char_def)
  from found_after_three_attempts [where F = third_is_75 and W = always_ok
      and w = "fresh building_cfg" and cfg = building_cfg
      and section_name = "''rest://Building1''" and auth = "(''user'', ''secret'')"
      and property_id = "''12345''", OF h1 h2 h3 h4 h5 h6] h1 h2 show ?thesis
    by (simp add: fresh_def u)
qed

text \<open>
  C1 (as amended). With \<^verbatim>\<open>max_years_to_check = 1\<close>, a start in month \<open>m\<close> of 1 to 12 and a
  server that never has a score, \<^verbatim>\<open>get_score\<close> makes exactly \<open>m + 12\<close> calls before it gives
  up: the months of the current year and the whole year before, at most 24 calls.
\<close>

theorem attempts_before_exhausted:
  assumes "no_score F"
    and "section_name \<noteq> weather_section"
    and "get_credentials_from_config cfg section_name = Some auth"
    and "1 \<le> month" and "month \<le> 12"
  shows "get_score F W property_id year month section_name cfg 1 w =
           Some (exhausted, cfg, called (nat (month + 12)) w) \<and>
         nat (month + 12) \<le> 24"
proof -
  have "score_loop F W property_id section_name 1 (year, month, 0) cfg w =
          Some (exhausted, cfg, called (nat (month + 12 * (1 - 0))) w)"
    using assms(1,3,4) by (rule score_loop_no_score) simp_all
  then show ?thesis using assms(2,5) by (simp add: get_score_def)
qed

theorem attempts_before_exhausted_witness:
  "no_score always_empty \<and> ''rest://Building1'' \<noteq> weather_section \<and>
   get_credentials_from_config building_cfg ''rest://Building1'' = Some (''user'', ''secret'') \<and>
   get_score always_empty always_ok ''12345'' 2024 12 ''rest://Building1'' building_cfg 1 (fresh building_cfg) =
     Some (exhausted, building_cfg, \<lparr>disk = building_cfg, http_calls = 24, file_writes = 0\<rparr>)"
proof -
  have h1: "no_score always_empty" by (simp add: no_score_def always_empty_def)
  have h2: "''rest://Building1'' \<noteq> weather_section" by (simp add: weather_section_def)
  have h3: "get_credentials_from_config building_cfg ''rest://Building1'' = Some (''user'', ''secret'')"
    by (simp add: get_credentials_from_config_def has_section_def cfg_get_def building_cfg_def)
  have h4: "(1::int) \<le> 12" "(12::int) \<le> 12" by simp_all
  from attempts_before_exhausted [where F = always_empty and W = always_ok
      and w = "fresh building_cfg" and property_id = "''12345''" and year = 2024,
      OF h1 h2 h3 h4] h1 h2 h3 show ?thesis
    by (simp add: called_def fresh_def)
qed

text \<open>
  C1 as stated fails: from February the search makes 14 calls, not at most 13.
\<close>

theorem thirteen_attempts_counterexample:
  "get_score always_empty always_ok ''12345'' 2024 2 ''rest://Building1'' building_cfg 1 (fresh building_cfg) =
     Some (exhausted, building_cfg, \<lparr>disk = building_cfg, http_calls = 14, file_writes = 0\<rparr>) \<and>
   \<not> (14::nat) \<le> 13"
  by (simp add: get_score_def score_loop.simps loop_body_def get_credentials_from_config_def
      has_section_def cfg_get_def building_cfg_def weather_section_def http_get_def
      always_empty_def try_previous_def previous_month_def fresh_def)

section \<open>The pre-pass\<close>

lemma has_option_has_section: "has_option cfg s k \<Longrightarrow> has_section cfg s"
  by (auto simp: has_option_def cfg_get_def has_section_def split: option.splits)

lemma sections_disable_polling: "sections (fst (disable_polling ss cfg m)) = sections cfg"
  by (induction ss cfg m rule: disable_polling.induct) (simp_all add: sections_cfg_set)

lemma cfg_get_disable_polling:
  "cfg_get (fst (disable_polling ss cfg m)) s k =
     (if k = ''polling_interval'' \<and> s \<in> set ss \<and> s \<noteq> weather_section \<and>
         has_option cfg s ''polling_interval''
      then Some disabled_interval else cfg_get cfg s k)"
proof (induction ss arbitrary: cfg m)
  case Nil
  then show ?case by simp
next
  case (Cons t ss)
  show ?case
  proof (cases "needs_disabling cfg t")
    case True
    then have hs: "has_section cfg t"
      by (auto simp: needs_disabling_def dest: has_option_has_section)
    have ho: "has_option (cfg_set cfg t ''polling_interval'' disabled_interval) s ''polling_interval'' =
          has_option cfg s ''polling_interval''"
      using True by (auto simp: has_option_def cfg_get_cfg_set needs_disabling_def)
    from True have "cfg_get (fst (disable_polling (t # ss) cfg m)) s k =
        cfg_get (fst (disable_polling ss (cfg_set cfg t ''polling_interval'' disabled_interval) True)) s k"
      by (simp add: needs_disabling_def)
    also have "\<dots> = (if k = ''polling_interval'' \<and> s \<in> set ss \<and> s \<noteq> weather_section \<and>
         has_option cfg s ''polling_interval''
      then Some disabled_interval
      else cfg_get (cfg_set cfg t ''polling_interval'' disabled_interval) s k)"
      unfolding Cons.IH ho ..
    also have "\<dots> = (if k = ''polling_interval'' \<and> s \<in> set (t # ss) \<and> s \<noteq> weather_section \<and>
         has_option cfg s ''polling_interval''
      then Some disabled_interval else cfg_get cfg s k)"
      using True hs by (auto simp: cfg_get_cfg_set needs_disabling_def)
    finally show ?thesis .
  next
    case False
    then have "cfg_get (fst (disable_polling (t # ss) cfg m)) s k =
        cfg_get (fst (disable_polling ss cfg m)) s k"
      by (auto simp: needs_disabling_def)
    also have "\<dots> = (if k = ''polling_interval'' \<and> s \<in> set ss \<and> s \<noteq> weather_section \<and>
         has_option cfg s ''polling_interval''
      then Some disabled_interval else cfg_get cfg s k)"
      unfolding Cons.IH ..
    also have "\<dots> = (if k = ''polling_interval'' \<and> s \<in> set (t # ss) \<and> s \<noteq> weather_section \<and>
         has_option cfg s ''polling_interval''
      then Some disabled_interval else cfg_get cfg s k)"
      using False by (auto simp: needs_disabling_def has_option_def)
    finally show ?thesis .
  qed
qed

lemma disable_polling_True: "snd (disable_polling ss cfg True)"
  by (induction ss cfg True rule: disable_polling.induct) auto

lemma modified_disable_polling:
  "snd (disable_polling ss cfg m) \<longleftrightarrow> m \<or> (\<exists>s \<in> set ss. needs_disabling cfg s)"
proof (induction ss arbitrary: cfg m)
  case Nil
  then show ?case by simp
next
  case (Cons t ss)
  show ?case
  proof (cases "needs_disabling cfg t")
    case True
    then show ?thesis by (simp add: needs_disabling_def disable_polling_True)
  next
    case False
    then have "snd (disable_polling (t # ss) cfg m) = snd (disable_polling ss cfg m)"
      by (auto simp: needs_disabling_def)
    with False show ?thesis unfolding Cons.IH by simp
  qed
qed

lemma disable_polling_idle:
  "\<forall>s \<in> set ss. \<not> needs_disabling cfg s \<Longrightarrow> disable_polling ss cfg m = (cfg, m)"
  by (induction ss cfg m rule: disable_polling.induct) (auto simp: needs_disabling_def)

lemma interval_changed_iff:
  "s \<in> set ss \<Longrightarrow>
   cfg_get (fst (disable_polling ss cfg m)) s ''polling_interval'' \<noteq>
     cfg_get cfg s ''polling_interval'' \<longleftrightarrow> needs_disabling cfg s"
  unfolding cfg_get_disable_polling needs_disabling_def by auto

lemma polling_changed_iff:
  "polling_changed cfg (fst (disable_polling (sections cfg) cfg False)) \<longleftrightarrow>
     (\<exists>s \<in> set (sections cfg). needs_disabling cfg s)"
  unfolding polling_changed_def using interval_changed_iff by blast

lemma after_disable_polling:
  "s \<in> set ss \<Longrightarrow> \<not> needs_disabling (fst (disable_polling ss cfg m)) s"
  by (auto simp: needs_disabling_def has_option_def cfg_get_disable_polling split: if_splits)

lemma has_option_in_sections: "has_option cfg s k \<Longrightarrow> s \<in> set (sections cfg)"
  by (auto simp: has_option_def cfg_get_def sections_def split: option.splits dest: map_of_SomeD
      intro: rev_image_eqI)

text \<open>What the pre-pass returns, writes and leaves in the parser object.\<close>

lemma pre_pass_facts:
  assumes "disable_polling (sections cfg) cfg False = (cfg', modified)"
    and "pre_pass W (sections cfg) cfg w = (r, w')"
  shows "(\<forall>s. s \<noteq> weather_section \<and> has_option cfg' s ''polling_interval'' \<longrightarrow>
            cfg_get cfg' s ''polling_interval'' = Some disabled_interval) \<and>
         (modified \<longleftrightarrow> polling_changed cfg cfg') \<and>
         file_writes w' = file_writes w + (if polling_changed cfg cfg' then 1 else 0) \<and>
         (polling_changed cfg cfg' \<and> r \<noteq> None \<longrightarrow> r = Some cfg' \<and> disk w' = cfg') \<and>
         (\<not> polling_changed cfg cfg' \<longrightarrow> r = Some cfg \<and> cfg' = cfg \<and> w' = w)"
proof -
  have cfg': "cfg' = fst (disable_polling (sections cfg) cfg False)"
    and m: "modified = snd (disable_polling (sections cfg) cfg False)"
    using assms(1) by simp_all
  have secs: "sections cfg' = sections cfg"
    unfolding cfg' by (rule sections_disable_polling)
  have a: "\<forall>s. s \<noteq> weather_section \<and> has_option cfg' s ''polling_interval'' \<longrightarrow>
            cfg_get cfg' s ''polling_interval'' = Some disabled_interval"
  proof (intro allI impI)
    fix s assume s: "s \<noteq> weather_section \<and> has_option cfg' s ''polling_interval''"
    then have "s \<in> set (sections cfg)" using has_option_in_sections secs by fastforce
    then have "\<not> needs_disabling cfg' s" unfolding cfg' by (rule after_disable_polling)
    with s show "cfg_get cfg' s ''polling_interval'' = Some disabled_interval"
      by (simp add: needs_disabling_def)
  qed
  have b: "modified \<longleftrightarrow> polling_changed cfg cfg'"
    unfolding m cfg' by (simp add: modified_disable_polling polling_changed_iff)
  have c: "\<not> modified \<Longrightarrow> cfg' = cfg"
  proof -
    assume "\<not> modified"
    then have "\<forall>s \<in> set (sections cfg). \<not> needs_disabling cfg s"
      unfolding m by (simp add: modified_disable_polling)
    then have "disable_polling (sections cfg) cfg False = (cfg, False)"
      by (rule disable_polling_idle)
    with assms(1) show "cfg' = cfg" by simp
  qed
  show ?thesis
  proof (cases modified)
    case True
    with assms have "file_writes w' = file_writes w + 1"
      and "r \<noteq> None \<longrightarrow> r = Some cfg' \<and> disk w' = cfg'"
      by (auto simp: pre_pass_def write_config_def split: if_splits)
    with True a b show ?thesis by simp
  next
    case False
    with assms have "r = Some cfg'" "w' = w" by (auto simp: pre_pass_def)
    with False a b c show ?thesis by simp
  qed
qed

text \<open>
  C7. After the pre-pass every section but the weather one that has a \<^verbatim>\<open>polling_interval\<close>
  has it equal to \<^verbatim>\<open>999999\<close>; the file is written exactly once when the pre-pass has changed
  the interval of some section, and not at all otherwise.
\<close>

theorem pre_pass_disables_polling:
  assumes "disable_polling (sections cfg) cfg False = (cfg', modified)"
    and "pre_pass W (sections cfg) cfg w = (r, w')"
  shows "(\<forall>s. s \<noteq> weather_section \<and> has_option cfg' s ''polling_interval'' \<longrightarrow>
            cfg_get cfg' s ''polling_interval'' = Some disabled_interval) \<and>
         (modified \<longleftrightarrow> polling_changed cfg cfg') \<and>
         file_writes w' = file_writes w + (if polling_changed cfg cfg' then 1 else 0) \<and>
         (polling_changed cfg cfg' \<and> r \<noteq> None \<longrightarrow> r = Some cfg' \<and> disk w' = cfg') \<and>
         (\<not> polling_changed cfg cfg' \<longrightarrow> r = Some cfg \<and> cfg' = cfg \<and> w' = w)"
  using assms by (rule pre_pass_facts)

theorem pre_pass_disables_polling_witness:
  "disable_polling (sections mixed_cfg) mixed_cfg False = (mixed_cfg_disabled, True) \<and>
   pre_pass always_ok (sections mixed_cfg) mixed_cfg (fresh mixed_cfg) =
     (Some mixed_cfg_disabled, \<lparr>disk = mixed_cfg_disabled, http_calls = 0, file_writes = 1\<rparr>) \<and>
   polling_changed mixed_cfg mixed_cfg_disabled \<and>
   cfg_get mixed_cfg_disabled ''rest://Building1'' ''polling_interval'' = Some disabled_interval \<and>
   file_writes \<lparr>disk = mixed_cfg_disabled, http_calls = 0, file_writes = 1\<rparr> =
     file_writes (fresh mixed_cfg) + 1"
proof -
  have h1: "disable_polling (sections mixed_cfg) mixed_cfg False = (mixed_cfg_disabled, True)"
    by (simp add: sections_def mixed_cfg_def mixed_cfg_disabled_def weather_section_def
        has_option_def cfg_get_def cfg_set_def disabled_interval_def)
  have h2: "pre_pass always_ok (sections mixed_cfg) mixed_cfg (fresh mixed_cfg) =
     (Some mixed_cfg_disabled, \<lparr>disk = mixed_cfg_disabled, http_calls = 0, file_writes = 1\<rparr>)"
    by (simp add: pre_pass_def h1 write_config_def always_ok_def fresh_def)
  have h3: "''rest://Building1'' \<noteq> weather_section \<and>
            has_option mixed_cfg_disabled ''rest://Building1'' ''polling_interval''"
    by (simp add: weather_section_def has_option_def cfg_get_def mixed_cfg_disabled_def)
  note T = pre_pass_disables_polling [OF h1 h2]
  from T have pc: "polling_changed mixed_cfg mixed_cfg_disabled" by blast
  from T h3 have g: "cfg_get mixed_cfg_disabled ''rest://Building1'' ''polling_interval'' =
      Some disabled_interval" by blast
  from T have "file_writes \<lparr>disk = mixed_cfg_disabled, http_calls = 0, file_writes = 1\<rparr> =
     file_writes (fresh mixed_cfg) +
       (if polling_changed mixed_cfg mixed_cfg_disabled then 1 else 0)" by blast
  with pc have fw: "file_writes \<lparr>disk = mixed_cfg_disabled, http_calls = 0, file_writes = 1\<rparr> =
     file_writes (fresh mixed_cfg) + 1" by (simp only: if_True)
  from h1 h2 pc g fw show ?thesis by blast
qed

section \<open>The main pass\<close>

text \<open>The definitions a run on a concrete file unfolds.\<close>

lemmas run_defs =
  main_def pre_pass_def main_pass.simps process_section_def get_score_def loop_body_def
  get_credentials_from_config_def has_section_def has_option_def cfg_get_def cfg_set_def
  sections_def weather_section_def disabled_interval_def never_schedule_def
  http_get_def write_config_def try_previous_def previous_month_def found_update_def
  extract_property_id_def match_here_def is_digit_def
  metrics_url_def str_int_def str_nat.simps digit_char_def exhausted_def fresh_def

lemma process_section_counts:
  assumes "process_section F W y m s t cfg w = Some (t', cfg', w')"
  shows "total t' = total t + 1"
  using assms
  by (auto simp: process_section_def total_def split: if_splits option.splits prod.splits)

lemma main_pass_counts:
  "main_pass F W y m ss t cfg w = Some (t', cfg', w') \<Longrightarrow> total t' = total t + length ss"
proof (induction ss arbitrary: t cfg w)
  case Nil
  then show ?case by simp
next
  case (Cons s ss)
  from Cons.prems obtain t1 cfg1 w1 where
    p: "process_section F W y m s t cfg w = Some (t1, cfg1, w1)"
    and r: "main_pass F W y m ss t1 cfg1 w1 = Some (t', cfg', w')"
    by (auto split: option.splits)
  from Cons.IH [OF r] process_section_counts [OF p] show ?case by simp
qed

lemma process_section_skipped:
  assumes "skipped_before_search cfg s"
  shows "process_section F W y m s t cfg w =
           Some (t\<lparr>skipped_count := skipped_count t + 1\<rparr>, cfg, w)"
  using assms by (auto simp: process_section_def skipped_before_search_def)

lemma process_section_searched:
  assumes "\<not> skipped_before_search cfg s"
    and "process_section F W y m s t cfg w = Some (t', cfg', w')"
  shows "\<exists>pid success yr mo.
           extract_property_id (the (cfg_get cfg s ''endpoint'')) = Some pid \<and>
           get_score F W pid y m s cfg 1 w = Some ((success, yr, mo), cfg', w') \<and>
           t' = (if success then t\<lparr>updated_count := updated_count t + 1\<rparr>
                 else t\<lparr>error_count := error_count t + 1\<rparr>)"
  using assms
  by (auto simp: process_section_def skipped_before_search_def
      dest: extract_property_id_digits split: if_splits option.splits prod.splits)

text \<open>
  Whether a section is skipped before the search depends on its own endpoint only, and a
  search leaves an endpoint with a property id where it found one: the skipped sections of
  a run can be read off the file the run starts with.
\<close>

lemma metrics_url_has_pattern:
  assumes "ds \<noteq> []" and "\<forall>c \<in> set ds. is_digit c"
  shows "extract_property_id (metrics_url ds year month) \<noteq> None"
proof -
  have "metrics_url ds year month =
      ''https://portfoliomanager.energystar.gov/ws'' @ ''/property/'' @ ds @ ''/metrics'' @
      (''?year='' @ str_int year @ ''&month='' @ str_int month)"
    by (simp add: metrics_url_def)
  with assms have "contains_pattern (metrics_url ds year month)"
    unfolding contains_pattern_def by blast
  then show ?thesis by (simp add: extract_None_iff)
qed

lemma cfg_get_found_update_other:
  "s' \<noteq> s \<Longrightarrow> cfg_get (found_update cfg s e) s' k = cfg_get cfg s' k"
  by (simp add: found_update_def cfg_get_cfg_set)

lemma skipped_found_update:
  assumes "has_section cfg s" and "\<not> skipped_before_search cfg s"
    and "extract_property_id e \<noteq> None"
  shows "skipped_before_search (found_update cfg s e) s' = skipped_before_search cfg s'"
proof (cases "s' = s")
  case True
  have "cfg_get (found_update cfg s e) s ''endpoint'' = Some e"
    using assms(1) by (rule cfg_get_found_update)
  with assms(2,3) True show ?thesis
    by (auto simp: skipped_before_search_def has_option_def)
next
  case False
  then show ?thesis
    by (simp add: skipped_before_search_def has_option_def cfg_get_found_update_other)
qed

lemma loop_body_cfg:
  assumes "loop_body F W pid s maxy st cfg w = Return r cfg' w' \<or>
           loop_body F W pid s maxy st cfg w = Again st' cfg' w'"
  shows "cfg' = cfg \<or>
         (has_section cfg s \<and> cfg' = found_update cfg s (metrics_url pid (fst st) (fst (snd st))))"
proof (cases "get_credentials_from_config cfg s")
  case None
  with assms show ?thesis by (simp add: loop_body_def)
next
  case (Some auth)
  then have "has_section cfg s" by (rule credentials_has_section)
  with assms Some show ?thesis
    by (auto simp: loop_body_def http_get_def write_config_def try_previous_def
        split: fetch_result.splits if_splits)
qed

lemma loop_body_skipped:
  assumes "loop_body F W pid s maxy st cfg w = Return r cfg' w' \<or>
           loop_body F W pid s maxy st cfg w = Again st' cfg' w'"
    and "pid \<noteq> []" and "\<forall>c \<in> set pid. is_digit c"
    and "\<not> skipped_before_search cfg s"
  shows "skipped_before_search cfg' s' = skipped_before_search cfg s'"
  using loop_body_cfg [OF assms(1)] assms(4) metrics_url_has_pattern [OF assms(2,3)]
  by (auto simp: skipped_found_update)

lemma score_loop_skipped:
  assumes "score_loop F W pid s maxy st cfg w = Some y"
  shows "pid \<noteq> [] \<and> (\<forall>c \<in> set pid. is_digit c) \<and> \<not> skipped_before_search cfg s \<longrightarrow>
         (\<forall>s'. skipped_before_search (fst (snd y)) s' = skipped_before_search cfg s')"
proof (rule score_loop.raw_induct [where P = "\<lambda>F W pid s maxy st cfg w y.
    pid \<noteq> [] \<and> (\<forall>c \<in> set pid. is_digit c) \<and> \<not> skipped_before_search cfg s \<longrightarrow>
    (\<forall>s'. skipped_before_search (fst (snd y)) s' = skipped_before_search cfg s')", OF _ assms])
  fix loop :: "fetch_oracle \<Rightarrow> write_oracle \<Rightarrow> string \<Rightarrow> string \<Rightarrow> int \<Rightarrow> int \<times> int \<times> int \<Rightarrow>
     config \<Rightarrow> world \<Rightarrow> (score_result \<times> config \<times> world) option"
  fix F W pid s maxy st cfg w y
  assume IH: "\<And>F W pid s maxy st cfg w y. loop F W pid s maxy st cfg w = Some y \<Longrightarrow>
      pid \<noteq> [] \<and> (\<forall>c \<in> set pid. is_digit c) \<and> \<not> skipped_before_search cfg s \<longrightarrow>
      (\<forall>s'. skipped_before_search (fst (snd y)) s' = skipped_before_search cfg s')"
  assume step: "(if snd (snd st) \<le> maxy
      then case loop_body F W pid s maxy st cfg w of
           Return r cfg' w' \<Rightarrow> Some (r, cfg', w')
           | Again st' cfg' w' \<Rightarrow> loop F W pid s maxy st' cfg' w'
      else Some (exhausted, cfg, w)) = Some y"
  show "pid \<noteq> [] \<and> (\<forall>c \<in> set pid. is_digit c) \<and> \<not> skipped_before_search cfg s \<longrightarrow>
      (\<forall>s'. skipped_before_search (fst (snd y)) s' = skipped_before_search cfg s')"
  proof (intro impI allI)
    fix s'
    assume a: "pid \<noteq> [] \<and> (\<forall>c \<in> set pid. is_digit c) \<and> \<not> skipped_before_search cfg s"
    show "skipped_before_search (fst (snd y)) s' = skipped_before_search cfg s'"
    proof (cases "snd (snd st) \<le> maxy")
      case False
      with step show ?thesis by auto
    next
      case True
      show ?thesis
      proof (cases "loop_body F W pid s maxy st cfg w")
        case (Return r cfg' w')
        with True step have y: "y = (r, cfg', w')" by simp
        from Return a have "skipped_before_search cfg' s' = skipped_before_search cfg s'"
          by (intro loop_body_skipped) auto
        with y show ?thesis by simp
      next
        case (Again st' cfg' w')
        with True step have l: "loop F W pid s maxy st' cfg' w' = Some y" by simp
        from Again a have k: "\<And>s'. skipped_before_search cfg' s' = skipped_before_search cfg s'"
          by (intro loop_body_skipped) auto
        with a IH [OF l] show ?thesis by simp
      qed
    qed
  qed
qed

lemma get_score_skipped:
  assumes "get_score F W pid year month s cfg maxy w = Some (r, cfg', w')"
    and "pid \<noteq> []" and "\<forall>c \<in> set pid. is_digit c" and "\<not> skipped_before_search cfg s"
  shows "skipped_before_search cfg' s' = skipped_before_search cfg s'"
proof (cases "s = weather_section")
  case True
  with assms(1) show ?thesis by (simp add: get_score_def)
next
  case False
  with assms(1) have "score_loop F W pid s maxy (year, month, 0) cfg w = Some (r, cfg', w')"
    by (simp add: get_score_def)
  from score_loop_skipped [OF this] assms(2-4) show ?thesis by simp
qed

lemma process_section_skip_status:
  assumes "process_section F W y m s t cfg w = Some (t', cfg', w')"
  shows "skipped_before_search cfg' s' = skipped_before_search cfg s'"
proof (cases "skipped_before_search cfg s")
  case True
  with assms show ?thesis by (simp add: process_section_skipped)
next
  case False
  from process_section_searched [OF False assms] obtain pid success yr mo where
    e: "extract_property_id (the (cfg_get cfg s ''endpoint'')) = Some pid"
    and g: "get_score F W pid y m s cfg 1 w = Some ((success, yr, mo), cfg', w')" by blast
  from e have "pid \<noteq> [] \<and> (\<forall>c \<in> set pid. is_digit c)"
    by (rule extract_property_id_digits)
  with g False show ?thesis by (intro get_score_skipped) auto
qed

lemma process_section_skipped_count:
  assumes "process_section F W y m s t cfg w = Some (t', cfg', w')"
  shows "skipped_count t' = skipped_count t + (if skipped_before_search cfg s then 1 else 0)"
proof (cases "skipped_before_search cfg s")
  case True
  with assms show ?thesis by (auto simp: process_section_skipped)
next
  case False
  from process_section_searched [OF False assms] False show ?thesis by auto
qed

lemma main_pass_skipped_count:
  "main_pass F W y m ss t cfg w = Some (t', cfg', w') \<Longrightarrow>
   skipped_count t' = skipped_count t + length (filter (skipped_before_search cfg) ss)"
proof (induction ss arbitrary: t cfg w)
  case Nil
  then show ?case by simp
next
  case (Cons s ss)
  from Cons.prems obtain t1 cfg1 w1 where
    p: "process_section F W y m s t cfg w = Some (t1, cfg1, w1)"
    and r: "main_pass F W y m ss t1 cfg1 w1 = Some (t', cfg', w')"
    by (auto split: option.splits)
  have "skipped_before_search cfg1 = skipped_before_search cfg"
    using process_section_skip_status [OF p] by (intro ext)
  with Cons.IH [OF r] process_section_skipped_count [OF p] show ?case by simp
qed

lemma skipped_disable_polling:
  "skipped_before_search (fst (disable_polling ss cfg m)) s = skipped_before_search cfg s"
  by (simp add: skipped_before_search_def has_option_def cfg_get_disable_polling)

lemma main_skipped_count:
  assumes "main F W y m w0 = Some (Completed counts, w1)"
  shows "skipped_count counts =
           length (filter (skipped_before_search (disk w0)) (sections (disk w0)))"
proof -
  from assms obtain cfg1 wp cfg2 where
    pp: "pre_pass W (sections (disk w0)) (disk w0) w0 = (Some cfg1, wp)"
    and mp: "main_pass F W y m (sections (disk w0))
       \<lparr>updated_count = 0, skipped_count = 0, error_count = 0\<rparr> cfg1 wp = Some (counts, cfg2, w1)"
    by (auto simp: main_def split: if_splits prod.splits option.splits)
  obtain cfg' modified where
    d: "disable_polling (sections (disk w0)) (disk w0) False = (cfg', modified)"
    by (cases "disable_polling (sections (disk w0)) (disk w0) False")
  from pre_pass_facts [OF d pp] have "cfg1 = cfg'"
    by (cases "polling_changed (disk w0) cfg'") simp_all
  with d have "cfg1 = fst (disable_polling (sections (disk w0)) (disk w0) False)" by simp
  then have "skipped_before_search cfg1 = skipped_before_search (disk w0)"
    by (intro ext) (simp add: skipped_disable_polling)
  with main_pass_skipped_count [OF mp] show ?thesis by simp
qed

text \<open>
  C10. In a run whose main pass completes the three counters add up to the number of
  sections. The skipped counter counts the sections that one of the three branches before
  the search skips (weather section, no \<^verbatim>\<open>endpoint\<close> option, no property id in the endpoint),
  one by one and in the whole run; a section that reaches \<^verbatim>\<open>get_score\<close> counts as updated
  when \<^verbatim>\<open>get_score\<close> succeeds and as an error otherwise, never as skipped.
\<close>

theorem tally_accounts_for_every_section:
  "(main F W current_year current_month w0 = Some (Completed counts, w1) \<longrightarrow>
      updated_count counts + error_count counts + skipped_count counts =
        length (sections (disk w0)) \<and>
      skipped_count counts =
        length (filter (skipped_before_search (disk w0)) (sections (disk w0)))) \<and>
   (process_section F W current_year current_month s t cfg w = Some (t', cfg', w') \<longrightarrow>
      (if skipped_before_search cfg s
       then t' = t\<lparr>skipped_count := skipped_count t + 1\<rparr> \<and> cfg' = cfg \<and> w' = w
       else (\<exists>pid success yr mo.
         extract_property_id (the (cfg_get cfg s ''endpoint'')) = Some pid \<and>
         get_score F W pid current_year current_month s cfg 1 w =
           Some ((success, yr, mo), cfg', w') \<and>
         t' = (if success then t\<lparr>updated_count := updated_count t + 1\<rparr>
               else t\<lparr>error_count := error_count t + 1\<rparr>))))"
proof (intro conjI impI)
  assume m: "main F W current_year current_month w0 = Some (Completed counts, w1)"
  then obtain cfg1 wp cfg2 where
    "main_pass F W current_year current_month (sections (disk w0))
       \<lparr>updated_count = 0, skipped_count = 0, error_count = 0\<rparr> cfg1 wp =
       Some (counts, cfg2, w1)"
    by (auto simp: main_def split: if_splits prod.splits option.splits)
  from main_pass_counts [OF this]
  show "updated_count counts + error_count counts + skipped_count counts =
      length (sections (disk w0))"
    by (simp add: total_def)
  from m show "skipped_count counts =
      length (filter (skipped_before_search (disk w0)) (sections (disk w0)))"
    by (rule main_skipped_count)
next
  assume p: "process_section F W current_year current_month s t cfg w = Some (t', cfg', w')"
  show "if skipped_before_search cfg s
       then t' = t\<lparr>skipped_count := skipped_count t + 1\<rparr> \<and> cfg' = cfg \<and> w' = w
       else (\<exists>pid success yr mo.
         extract_property_id (the (cfg_get cfg s ''endpoint'')) = Some pid \<and>
         get_score F W pid current_year current_month s cfg 1 w =
           Some ((success, yr, mo), cfg', w') \<and>
         t' = (if success then t\<lparr>updated_count := updated_count t + 1\<rparr>
               else t\<lparr>error_count := error_count t + 1\<rparr>))"
  proof (cases "skipped_before_search cfg s")
    case True
    with p show ?thesis by (simp add: process_section_skipped)
  next
    case False
    with process_section_searched [OF False p] show ?thesis by simp
  qed
qed

theorem tally_accounts_for_every_section_witness:
  "main third_is_75 always_ok 2024 3 (fresh mixed_cfg) =
     Some (Completed \<lparr>updated_count = 1, skipped_count = 2, error_count = 1\<rparr>,
           \<lparr>disk = mixed_cfg_updated, http_calls = 3, file_writes = 2\<rparr>) \<and>
   (1::nat) + 1 + 2 = length (sections (disk (fresh mixed_cfg))) \<and>
   (2::nat) = length (filter (skipped_before_search (disk (fresh mixed_cfg)))
                  (sections (disk (fresh mixed_cfg)))) \<and>
   process_section third_is_75 always_ok 2024 3 ''rest://WeatherTest3''
       \<lparr>updated_count = 0, skipped_count = 0, error_count = 0\<rparr>
       mixed_cfg_disabled (fresh mixed_cfg_disabled) =
     Some (\<lparr>updated_count = 0, skipped_count = 1, error_count = 0\<rparr>,
           mixed_cfg_disabled, fresh mixed_cfg_disabled) \<and>
   skipped_before_search mixed_cfg_disabled ''rest://WeatherTest3''"
proof -
  have e1: "main third_is_75 always_ok 2024 3 (fresh mixed_cfg) =
     Some (Completed \<lparr>updated_count = 1, skipped_count = 2, error_count = 1\<rparr>,
           \<lparr>disk = mixed_cfg_updated, http_calls = 3, file_writes = 2\<rparr>)"
    by (simp add: run_defs score_loop.simps mixed_cfg_def mixed_cfg_updated_def
        third_is_75_def always_ok_def)
  have e2: "process_section third_is_75 always_ok 2024 3 ''rest://WeatherTest3''
       \<lparr>updated_count = 0, skipped_count = 0, error_count = 0\<rparr>
       mixed_cfg_disabled (fresh mixed_cfg_disabled) =
     Some (\<lparr>updated_count = 0, skipped_count = 1, error_count = 0\<rparr>,
           mixed_cfg_disabled, fresh mixed_cfg_disabled)"
    by (simp add: process_section_def weather_section_def)
  have e3: "skipped_before_search mixed_cfg_disabled ''rest://WeatherTest3''"
    by (simp add: skipped_before_search_def weather_section_def)
  note T = tally_accounts_for_every_section [where F = third_is_75 and W = always_ok
      and current_year = 2024 and current_month = 3 and ?w0.0 = "fresh mixed_cfg"
      and counts = "\<lparr>updated_count = 1, skipped_count = 2, error_count = 1\<rparr>"
      and ?w1.0 = "\<lparr>disk = mixed_cfg_updated, http_calls = 3, file_writes = 2\<rparr>"
      and s = "''rest://WeatherTest3''"
      and t = "\<lparr>updated_count = 0, skipped_count = 0, error_count = 0\<rparr>"
      and cfg = mixed_cfg_disabled and w = "fresh mixed_cfg_disabled"
      and t' = "\<lparr>updated_count = 0, skipped_count = 1, error_count = 0\<rparr>"
      and cfg' = mixed_cfg_disabled and w' = "fresh mixed_cfg_disabled"]
  from T e1 have
    "updated_count \<lparr>updated_count = 1, skipped_count = 2, error_count = 1\<rparr> +
     error_count \<lparr>updated_count = 1, skipped_count = 2, error_count = 1\<rparr> +
     skipped_count \<lparr>updated_count = 1, skipped_count = 2, error_count = 1\<rparr> =
       length (sections (disk (fresh mixed_cfg)))"
    and "skipped_count \<lparr>updated_count = 1, skipped_count = 2, error_count = 1\<rparr> =
       length (filter (skipped_before_search (disk (fresh mixed_cfg)))
                  (sections (disk (fresh mixed_cfg))))"
    by blast+
  then have c: "(1::nat) + 1 + 2 = length (sections (disk (fresh mixed_cfg)))"
    and d: "(2::nat) = length (filter (skipped_before_search (disk (fresh mixed_cfg)))
                  (sections (disk (fresh mixed_cfg))))"
    by simp_all
  from T e2 have "if skipped_before_search mixed_cfg_disabled ''rest://WeatherTest3''
      then \<lparr>updated_count = 0, skipped_count = 1, error_count = 0\<rparr> =
             \<lparr>updated_count = 0, skipped_count = 0, error_count = 0\<rparr>
               \<lparr>skipped_count :=
                  skipped_count \<lparr>updated_count = 0, skipped_count = 0, error_count = 0\<rparr> + 1\<rparr> \<and>
           mixed_cfg_disabled = mixed_cfg_disabled \<and>
           fresh mixed_cfg_disabled = fresh mixed_cfg_disabled
      else (\<exists>pid success yr mo.
         extract_property_id (the (cfg_get mixed_cfg_disabled ''rest://WeatherTest3'' ''endpoint'')) =
           Some pid \<and>
         get_score third_is_75 always_ok pid 2024 3 ''rest://WeatherTest3'' mixed_cfg_disabled 1
             (fresh mixed_cfg_disabled) =
           Some ((success, yr, mo), mixed_cfg_disabled, fresh mixed_cfg_disabled) \<and>
         \<lparr>updated_count = 0, skipped_count = 1, error_count = 0\<rparr> =
           (if success
            then \<lparr>updated_count = 0, skipped_count = 0, error_count = 0\<rparr>
                   \<lparr>updated_count :=
                      updated_count \<lparr>updated_count = 0, skipped_count = 0, error_count = 0\<rparr> + 1\<rparr>
            else \<lparr>updated_count = 0, skipped_count = 0, error_count = 0\<rparr>
                   \<lparr>error_count :=
                      error_count \<lparr>updated_count = 0, skipped_count = 0, error_count = 0\<rparr> + 1\<rparr>))"
    by blast
  from e1 e2 e3 c d show ?thesis by blast
qed

section \<open>Two runs in a row\<close>

lemma called_called: "called n (called k w) = called (k + n) w"
  by (simp add: called_def add.assoc)

lemma called_fields [simp]:
  "disk (called n w) = disk w" "file_writes (called n w) = file_writes w"
  "http_calls (called n w) = http_calls w + n"
  by (simp_all add: called_def)

lemma called_0: "called 0 w = w"
  by (simp add: called_def)

lemma get_score_no_score:
  assumes "no_score F" and "1 \<le> month"
  shows "\<exists>n. get_score F W pid year month s cfg 1 w = Some (exhausted, cfg, called n w)"
proof (cases "s = weather_section")
  case True
  then have "get_score F W pid year month s cfg 1 w = Some (exhausted, cfg, called 0 w)"
    by (simp add: get_score_def called_0)
  then show ?thesis ..
next
  case False
  show ?thesis
  proof (cases "get_credentials_from_config cfg s")
    case None
    then have "get_score F W pid year month s cfg 1 w = Some (exhausted, cfg, called 0 w)"
      using False by (simp add: get_score_def score_loop_no_credentials called_0)
    then show ?thesis ..
  next
    case (Some auth)
    have "score_loop F W pid s 1 (year, month, 0) cfg w =
            Some (exhausted, cfg, called (nat (month + 12 * (1 - 0))) w)"
      using assms(1) Some assms(2) by (rule score_loop_no_score) simp_all
    then have "get_score F W pid year month s cfg 1 w =
            Some (exhausted, cfg, called (nat (month + 12 * (1 - 0))) w)"
      using False by (simp add: get_score_def)
    then show ?thesis ..
  qed
qed

lemma process_section_no_score:
  assumes "no_score F" and "1 \<le> month"
  shows "\<exists>t' n. process_section F W year month s t cfg w = Some (t', cfg, called n w)"
proof (cases "skipped_before_search cfg s")
  case True
  then have "process_section F W year month s t cfg w =
      Some (t\<lparr>skipped_count := skipped_count t + 1\<rparr>, cfg, called 0 w)"
    by (simp add: process_section_skipped called_0)
  then show ?thesis by blast
next
  case False
  then obtain pid where pid: "extract_property_id (the (cfg_get cfg s ''endpoint'')) = Some pid"
    by (auto simp: skipped_before_search_def)
  from get_score_no_score [OF assms] obtain n where
    "get_score F W pid year month s cfg 1 w = Some (exhausted, cfg, called n w)" by blast
  moreover from pid have "pid \<noteq> []" by (auto dest: extract_property_id_digits)
  ultimately have "process_section F W year month s t cfg w =
      Some (t\<lparr>error_count := error_count t + 1\<rparr>, cfg, called n w)"
    using False pid by (simp add: process_section_def skipped_before_search_def exhausted_def)
  then show ?thesis by blast
qed

lemma main_pass_no_score:
  assumes "no_score F" and "1 \<le> month"
  shows "\<exists>t' n. main_pass F W year month ss t cfg w = Some (t', cfg, called n w)"
proof (induction ss arbitrary: t w)
  case Nil
  have "main_pass F W year month [] t cfg w = Some (t, cfg, called 0 w)"
    by (simp add: called_0)
  then show ?case by blast
next
  case (Cons s ss)
  from process_section_no_score [OF assms] obtain t1 k where
    p: "process_section F W year month s t cfg w = Some (t1, cfg, called k w)" by blast
  from Cons.IH obtain t2 n where
    "main_pass F W year month ss t1 cfg (called k w) = Some (t2, cfg, called n (called k w))"
    by blast
  with p have "main_pass F W year month (s # ss) t cfg w = Some (t2, cfg, called (k + n) w)"
    by (simp add: called_called)
  then show ?case by blast
qed

lemma main_no_score:
  assumes "no_score F" and "1 \<le> month"
  shows "\<exists>r w'. main F W year month w = Some (r, w') \<and>
           (r \<noteq> Aborted \<longrightarrow> disk w' = fst (disable_polling (sections (disk w)) (disk w) False)) \<and>
           (\<not> snd (disable_polling (sections (disk w)) (disk w) False) \<longrightarrow>
              r \<noteq> Aborted \<and> disk w' = disk w)"
proof (cases "sections (disk w) = []")
  case True
  then show ?thesis by (simp add: main_def)
next
  case False
  obtain cfg' modified where d: "disable_polling (sections (disk w)) (disk w) False = (cfg', modified)"
    by (cases "disable_polling (sections (disk w)) (disk w) False")
  obtain r w1 where p: "pre_pass W (sections (disk w)) (disk w) w = (r, w1)"
    by (cases "pre_pass W (sections (disk w)) (disk w) w")
  note T = pre_pass_facts [OF d p]
  show ?thesis
  proof (cases r)
    case None
    with T have "modified" by auto
    with None p d False show ?thesis by (simp add: main_def)
  next
    case (Some cfg1)
    from main_pass_no_score [OF assms] obtain t' n where
      mp: "main_pass F W year month (sections (disk w))
         \<lparr>updated_count = 0, skipped_count = 0, error_count = 0\<rparr> cfg1 w1 =
         Some (t', cfg1, called n w1)" by blast
    with Some p False have m: "main F W year month w = Some (Completed t', called n w1)"
      by (simp add: main_def)
    have "disk w1 = cfg'"
    proof (cases "polling_changed (disk w) cfg'")
      case True
      with T Some show ?thesis by simp
    next
      case False
      with T show ?thesis by simp
    qed
    moreover have "\<not> modified \<Longrightarrow> disk w1 = disk w" using T by simp
    ultimately show ?thesis using m d by simp
  qed
qed

lemma disable_polling_twice:
  "disable_polling (sections cfg) (fst (disable_polling (sections cfg) cfg False)) False =
     (fst (disable_polling (sections cfg) cfg False), False)"
  by (intro disable_polling_idle ballI after_disable_polling)

text \<open>
  C8. When the server never has a score, a run that is not cut short by a failed write
  leaves the file as its pre-pass made it, and a second run after it returns too and leaves
  the file as the first run left it: every \<^verbatim>\<open>endpoint\<close> and \<^verbatim>\<open>polling_interval\<close> is the same.
\<close>

theorem second_run_changes_nothing:
  assumes "no_score F" and "1 \<le> month1" and "1 \<le> month2"
  shows "\<exists>r1 w1. main F W year1 month1 w0 = Some (r1, w1) \<and>
           (r1 \<noteq> Aborted \<longrightarrow>
              (\<exists>r2 w2. main F W year2 month2 w1 = Some (r2, w2) \<and> r2 \<noteq> Aborted \<and>
                 disk w2 = disk w1 \<and>
                 (\<forall>s. cfg_get (disk w2) s ''endpoint'' = cfg_get (disk w1) s ''endpoint'' \<and>
                      cfg_get (disk w2) s ''polling_interval'' =
                        cfg_get (disk w1) s ''polling_interval'')))"
proof -
  from main_no_score [OF assms(1,2)] obtain r1 w1 where
    m1: "main F W year1 month1 w0 = Some (r1, w1)"
    and d1: "r1 \<noteq> Aborted \<longrightarrow> disk w1 = fst (disable_polling (sections (disk w0)) (disk w0) False)"
    by blast
  have "r1 \<noteq> Aborted \<longrightarrow>
          (\<exists>r2 w2. main F W year2 month2 w1 = Some (r2, w2) \<and> r2 \<noteq> Aborted \<and> disk w2 = disk w1)"
  proof
    assume "r1 \<noteq> Aborted"
    with d1 have d: "disk w1 = fst (disable_polling (sections (disk w0)) (disk w0) False)" by simp
    then have s: "sections (disk w1) = sections (disk w0)"
      by (simp add: sections_disable_polling)
    have "disable_polling (sections (disk w1)) (disk w1) False = (disk w1, False)"
      unfolding s unfolding d by (rule disable_polling_twice)
    then have "\<not> snd (disable_polling (sections (disk w1)) (disk w1) False)" by simp
    with main_no_score [OF assms(1,3), of W year2 w1]
    show "\<exists>r2 w2. main F W year2 month2 w1 = Some (r2, w2) \<and> r2 \<noteq> Aborted \<and> disk w2 = disk w1"
      by blast
  qed
  with m1 show ?thesis by fastforce
qed

theorem second_run_changes_nothing_witness:
  "no_score always_empty \<and>
   main always_empty always_ok 2024 1 (fresh building_cfg) =
     Some (Completed \<lparr>updated_count = 0, skipped_count = 0, error_count = 1\<rparr>,
           \<lparr>disk = building_cfg_disabled, http_calls = 13, file_writes = 1\<rparr>) \<and>
   main always_empty always_ok 2024 2
       \<lparr>disk = building_cfg_disabled, http_calls = 13, file_writes = 1\<rparr> =
     Some (Completed \<lparr>updated_count = 0, skipped_count = 0, error_count = 1\<rparr>,
           \<lparr>disk = building_cfg_disabled, http_calls = 27, file_writes = 1\<rparr>) \<and>
   disk \<lparr>disk = building_cfg_disabled, http_calls = 27, file_writes = 1\<rparr> =
     disk \<lparr>disk = building_cfg_disabled, http_calls = 13, file_writes = 1\<rparr>"
proof -
  have h1: "no_score always_empty" by (simp add: no_score_def always_empty_def)
  have h2: "(1::int) \<le> 1" and h3: "(1::int) \<le> 2" by simp_all
  have e1: "main always_empty always_ok 2024 1 (fresh building_cfg) =
     Some (Completed \<lparr>updated_count = 0, skipped_count = 0, error_count = 1\<rparr>,
           \<lparr>disk = building_cfg_disabled, http_calls = 13, file_writes = 1\<rparr>)"
    by (simp add: run_defs score_loop.simps building_cfg_def building_cfg_disabled_def
        always_empty_def always_ok_def)
  have e2: "main always_empty always_ok 2024 2
       \<lparr>disk = building_cfg_disabled, http_calls = 13, file_writes = 1\<rparr> =
     Some (Completed \<lparr>updated_count = 0, skipped_count = 0, error_count = 1\<rparr>,
           \<lparr>disk = building_cfg_disabled, http_calls = 27, file_writes = 1\<rparr>)"
    by (simp add: run_defs score_loop.simps building_cfg_disabled_def
        always_empty_def always_ok_def)
  from second_run_changes_nothing [where F = always_empty and W = always_ok
      and ?w0.0 = "fresh building_cfg" and ?year1.0 = 2024 and ?year2.0 = 2024, OF h1 h2 h3]
  obtain r1 w1 where
    m1: "main always_empty always_ok 2024 1 (fresh building_cfg) = Some (r1, w1)"
    and n: "r1 \<noteq> Aborted \<longrightarrow>
        (\<exists>r2 w2. main always_empty always_ok 2024 2 w1 = Some (r2, w2) \<and> disk w2 = disk w1)"
    by blast
  from m1 e1 have r1: "r1 = Completed \<lparr>updated_count = 0, skipped_count = 0, error_count = 1\<rparr>"
    and w1: "w1 = \<lparr>disk = building_cfg_disabled, http_calls = 13, file_writes = 1\<rparr>"
    by simp_all
  from n r1 obtain r2 w2 where
    m2: "main always_empty always_ok 2024 2 w1 = Some (r2, w2)" and d: "disk w2 = disk w1"
    by auto
  from m2 e2 w1 have "w2 = \<lparr>disk = building_cfg_disabled, http_calls = 27, file_writes = 1\<rparr>"
    by simp
  with d w1 have "disk \<lparr>disk = building_cfg_disabled, http_calls = 27, file_writes = 1\<rparr> =
     disk \<lparr>disk = building_cfg_disabled, http_calls = 13, file_writes = 1\<rparr>" by simp
  with h1 e1 e2 show ?thesis by blast
qed

section \<open>Where the script departs from its description\<close>

text \<open>
  C2. A section without credentials that reaches \<^verbatim>\<open>get_score\<close> gets \<^verbatim>\<open>success = False\<close> back,
  and \<^verbatim>\<open>main\<close> counts every \<^verbatim>\<open>False\<close> as an error: the run completes with one error and
  nothing skipped, although the log says ``Skipping section''.
\<close>

theorem missing_credentials_counted_as_error:
  "main always_75 always_ok 2024 3 (fresh no_auth_cfg) =
     Some (Completed \<lparr>updated_count = 0, skipped_count = 0, error_count = 1\<rparr>,
           \<lparr>disk =
              [(''rest://Building2'',
                [(''endpoint'', ''https://portfoliomanager.energystar.gov/ws/property/777/metrics?year=2023&month=6''),
                 (''polling_interval'', ''999999'')])],
            http_calls = 0, file_writes = 1\<rparr>)"
  by (simp add: run_defs score_loop.simps no_auth_cfg_def always_75_def always_ok_def)

text \<open>
  C3. The write that follows a score stands inside the \<^verbatim>\<open>try\<close> of the search, so its
  \<^verbatim>\<open>OSError\<close> is caught by \<^verbatim>\<open>except Exception\<close>: the search steps a month back and the run
  completes, here with the endpoint of February where March had a score.
\<close>

theorem write_failure_is_absorbed:
  "main always_75 second_write_fails 2024 3 (fresh building_cfg) =
     Some (Completed \<lparr>updated_count = 1, skipped_count = 0, error_count = 0\<rparr>,
           \<lparr>disk =
              [(''rest://Building1'',
                [(''endpoint'', ''https://portfoliomanager.energystar.gov/ws/property/12345/metrics?year=2024&month=2''),
                 (''polling_interval'', ''0 0 5 31 2 ?''),
                 (''auth_user'', ''user''),
                 (''auth_password'', ''secret'')])],
            http_calls = 2, file_writes = 3\<rparr>)"
  by (simp add: run_defs score_loop.simps building_cfg_def always_75_def second_write_fails_def)

end
